theory Spec2Isabelle
  imports Complex_Main
begin

section \<open>JavaScript numbers\<close>

text \<open>
  A JavaScript \<open>number\<close> is an IEEE 754 double: \<open>NaN\<close>, one of the two infinities, or a
  finite value, here a real number. Every arithmetic operation computes the exact real
  result and rounds it to the nearest double, ties to the even significand; a result that
  rounds beyond \<open>Number.MAX_VALUE\<close> becomes an infinity. The sign of zero is not modelled:
  no operation of \<open>wellsLayer.ts\<close> tells the two zeros apart.
\<close>

datatype jsnum = NaN | NegInf | Fin real | PosInf

definition MAX_VALUE :: real where
  \<comment> \<open>\<open>Number.MAX_VALUE\<close>, the largest finite double\<close>
  "MAX_VALUE = (2 ^ 53 - 1) * 2 ^ 971"

definition rne :: "real \<Rightarrow> int" where
  \<comment> \<open>the nearest integer, a tie going to the even one\<close>
  "rne x =
     (let f = \<lfloor>x\<rfloor>; d = x - of_int f
      in if d < 1 / 2 then f else if 1 / 2 < d then f + 1 else if even f then f else f + 1)"

definition expo :: "real \<Rightarrow> int" where
  \<comment> \<open>the binary exponent of a non-zero \<open>r\<close>, \<open>2 ^ e \<le> |r| < 2 ^ (e + 1)\<close>; the subnormal
      numbers share the least exponent \<open>-1022\<close>\<close>
  "expo r = max \<lfloor>log 2 \<bar>r\<bar>\<rfloor> (- 1022)"

definition ulp :: "real \<Rightarrow> real" where
  \<comment> \<open>the distance of neighbouring doubles around \<open>r\<close>: 53 significant bits\<close>
  "ulp r = 2 powr of_int (expo r - 52)"

definition fl :: "real \<Rightarrow> jsnum" where
  \<comment> \<open>the double nearest to the exact result \<open>r\<close>, or an infinity on overflow\<close>
  "fl r =
     (if r = 0 then Fin 0
      else
        let v = of_int (rne (r / ulp r)) * ulp r
        in if MAX_VALUE < v then PosInf else if v < - MAX_VALUE then NegInf else Fin v)"

fun jneg :: "jsnum \<Rightarrow> jsnum" where
  "jneg NaN = NaN"
| "jneg NegInf = PosInf"
| "jneg PosInf = NegInf"
| "jneg (Fin a) = Fin (- a)"

fun jadd :: "jsnum \<Rightarrow> jsnum \<Rightarrow> jsnum" where
  "jadd NaN _ = NaN"
| "jadd _ NaN = NaN"
| "jadd (Fin a) (Fin b) = fl (a + b)"
| "jadd PosInf NegInf = NaN"
| "jadd NegInf PosInf = NaN"
| "jadd PosInf _ = PosInf"
| "jadd NegInf _ = NegInf"
| "jadd (Fin _) b = b"

definition jsub :: "jsnum \<Rightarrow> jsnum \<Rightarrow> jsnum" where
  "jsub a b = jadd a (jneg b)"

fun jsgn :: "jsnum \<Rightarrow> real" where
  "jsgn (Fin a) = sgn a"
| "jsgn PosInf = 1"
| "jsgn NegInf = - 1"
| "jsgn NaN = 0"

fun jmul :: "jsnum \<Rightarrow> jsnum \<Rightarrow> jsnum" where
  "jmul NaN _ = NaN"
| "jmul _ NaN = NaN"
| "jmul (Fin a) (Fin b) = fl (a * b)"
| "jmul a b =
     (if jsgn a * jsgn b = 0 then NaN else if 0 < jsgn a * jsgn b then PosInf else NegInf)"

fun jdiv :: "jsnum \<Rightarrow> jsnum \<Rightarrow> jsnum" where
  "jdiv NaN _ = NaN"
| "jdiv _ NaN = NaN"
| "jdiv (Fin a) (Fin b) =
     (if b = 0 then (if a = 0 then NaN else if 0 < a then PosInf else NegInf)
      else fl (a / b))"
| "jdiv (Fin a) b = Fin 0"
| "jdiv a (Fin b) = (if 0 < jsgn a * (if b < 0 then - 1 else 1) then PosInf else NegInf)"
| "jdiv a b = NaN"

definition trunc :: "real \<Rightarrow> real" where
  "trunc r = (if 0 \<le> r then of_int \<lfloor>r\<rfloor> else of_int \<lceil>r\<rceil>)"

fun jrem :: "jsnum \<Rightarrow> jsnum \<Rightarrow> jsnum" where
  \<comment> \<open>the operator \<open>%\<close>: the remainder has the sign of the dividend\<close>
  "jrem NaN _ = NaN"
| "jrem _ NaN = NaN"
| "jrem (Fin a) (Fin b) = (if b = 0 then NaN else Fin (a - b * trunc (a / b)))"
| "jrem (Fin a) b = Fin a"
| "jrem a b = NaN"

fun jgt :: "jsnum \<Rightarrow> jsnum \<Rightarrow> bool" where
  \<comment> \<open>the operator \<open>>\<close>: every comparison with \<open>NaN\<close> is false\<close>
  "jgt NaN _ = False"
| "jgt _ NaN = False"
| "jgt (Fin a) (Fin b) = (b < a)"
| "jgt PosInf b = (b \<noteq> PosInf)"
| "jgt a NegInf = (a \<noteq> NegInf)"
| "jgt a b = False"

definition jle :: "jsnum \<Rightarrow> jsnum \<Rightarrow> bool" where
  \<comment> \<open>the operator \<open><=\<close>\<close>
  "jle a b = (a \<noteq> NaN \<and> b \<noteq> NaN \<and> \<not> jgt a b)"

definition jmin :: "jsnum \<Rightarrow> jsnum \<Rightarrow> jsnum" where
  "jmin a b = (if a = NaN \<or> b = NaN then NaN else if jgt a b then b else a)"

definition jmax :: "jsnum \<Rightarrow> jsnum \<Rightarrow> jsnum" where
  "jmax a b = (if a = NaN \<or> b = NaN then NaN else if jgt b a then b else a)"

definition Math_min :: "jsnum list \<Rightarrow> jsnum" where
  \<comment> \<open>\<open>Math.min(...xs)\<close>: \<open>Infinity\<close> on no arguments, \<open>NaN\<close> if any argument is\<close>
  "Math_min xs = foldl jmin PosInf xs"

definition Math_max :: "jsnum list \<Rightarrow> jsnum" where
  "Math_max xs = foldl jmax NegInf xs"

section \<open>Arrays and strings\<close>

datatype error = TypeError

definition at_index :: "'a list \<Rightarrow> int \<Rightarrow> 'a option" where
  \<comment> \<open>\<open>xs[i]\<close> for an integer \<open>i\<close>: \<open>undefined\<close> (here \<open>None\<close>) outside \<open>0 .. length - 1\<close>\<close>
  "at_index xs i = (if 0 \<le> i \<and> i < int (length xs) then Some (xs ! nat i) else None)"

fun at_num :: "'a list \<Rightarrow> jsnum \<Rightarrow> 'a option" where
  \<comment> \<open>\<open>xs[k]\<close> for a number \<open>k\<close>: only an integral \<open>k\<close> names an element\<close>
  "at_num xs (Fin r) = (if r = of_int \<lfloor>r\<rfloor> then at_index xs \<lfloor>r\<rfloor> else None)"
| "at_num xs _ = None"

fun findIndex_from :: "('a \<Rightarrow> bool) \<Rightarrow> 'a list \<Rightarrow> int \<Rightarrow> int" where
  "findIndex_from P [] k = - 1"
| "findIndex_from P (x # xs) k = (if P x then k else findIndex_from P xs (k + 1))"

definition findIndex :: "('a \<Rightarrow> bool) \<Rightarrow> 'a list \<Rightarrow> int" where
  \<comment> \<open>\<open>Array.prototype.findIndex\<close>: the first index whose element satisfies \<open>P\<close>, else \<open>-1\<close>\<close>
  "findIndex P xs = findIndex_from P xs 0"

fun lower_char :: "char \<Rightarrow> char" where
  \<comment> \<open>code units 0 .. 255: A-Z and the Latin-1 capitals have a lower-case form, 32 above\<close>
  "lower_char (Char b0 b1 b2 b3 b4 b5 b6 b7) =
     (let n = (of_char (Char b0 b1 b2 b3 b4 b5 b6 b7) :: nat)
      in if (65 \<le> n \<and> n \<le> 90) \<or> (192 \<le> n \<and> n \<le> 222 \<and> n \<noteq> 215)
         then Char b0 b1 b2 b3 b4 True b6 b7
         else Char b0 b1 b2 b3 b4 b5 b6 b7)"

definition toLowerCase :: "string \<Rightarrow> string" where
  "toLowerCase s = map lower_char s"

section \<open>The log curve data\<close>

text \<open>
  \<open>data[0]\<close> is the trajectory, an array of points; the other rows of \<open>data\<close> hold one
  number per trajectory vertex. A missing field is \<open>None\<close>.
\<close>

datatype cell = Num jsnum | Pt "jsnum list"

record LogHeader =
  header_name :: string

record Curve =
  name :: string
  description :: string

record LogCurveDataType =
  header :: "LogHeader option"
  curves :: "Curve list option"
  data :: "cell list list option"

fun to_number :: "cell \<Rightarrow> jsnum" where
  \<comment> \<open>the coercion of an operand to a number; an array goes through its string form\<close>
  "to_number (Num n) = n"
| "to_number (Pt []) = Fin 0"
| "to_number (Pt [x]) = x"
| "to_number (Pt _) = NaN"

type_synonym RGBAColor = "jsnum list"

definition COLOR_MAP :: "RGBAColor list" where
  "COLOR_MAP = map (map Fin)
     [[0, 0, 0, 0],
      [0, 255, 0, 255],
      [0, 0, 255, 255],
      [255, 255, 0, 255],
      [255, 0, 255, 255],
      [0, 255, 255, 255],
      [125, 125, 255, 255],
      [125, 255, 125, 255],
      [255, 125, 125, 255]]"

definition getLogIDByName :: "LogCurveDataType option \<Rightarrow> string \<Rightarrow> int option" where
  \<comment> \<open>\<open>d?.curves?.findIndex(...)\<close>: \<open>undefined\<close> (\<open>None\<close>) without \<open>d\<close> or \<open>d.curves\<close>\<close>
  "getLogIDByName d log_name =
     (case d of
        None \<Rightarrow> None
      | Some d' \<Rightarrow>
          (case curves d' of
             None \<Rightarrow> None
           | Some cs \<Rightarrow>
               Some (findIndex (\<lambda>item. toLowerCase (name item) = toLowerCase log_name) cs)))"

definition row_at :: "LogCurveDataType option \<Rightarrow> int \<Rightarrow> error + cell list option" where
  \<comment> \<open>\<open>d?.data[log_id]\<close>: indexing a missing \<open>data\<close> throws\<close>
  "row_at d log_id =
     (case d of
        None \<Rightarrow> Inr None
      | Some d' \<Rightarrow> (case data d' of None \<Rightarrow> Inl TypeError | Some rows \<Rightarrow> Inr (at_index rows log_id)))"

definition curve_at :: "LogCurveDataType option \<Rightarrow> int \<Rightarrow> error + Curve option" where
  \<comment> \<open>\<open>d?.curves[log_id]\<close>\<close>
  "curve_at d log_id =
     (case d of
        None \<Rightarrow> Inr None
      | Some d' \<Rightarrow> (case curves d' of None \<Rightarrow> Inl TypeError | Some cs \<Rightarrow> Inr (at_index cs log_id)))"

definition divisions :: "cell list \<Rightarrow> (jsnum \<times> jsnum) list" where
  \<comment> \<open>the continuous branch: numerator \<open>value - min\<close> and denominator \<open>max_delta\<close> of the
      division evaluated for each sample\<close>
  "divisions row =
     (let min = Math_min (map to_number row);
          max = Math_max (map to_number row);
          max_delta = jsub max min
      in map (\<lambda>value. (jsub (to_number value) min, max_delta)) row)"

definition continuous_colors ::
  "(jsnum \<Rightarrow> (jsnum \<times> jsnum \<times> jsnum) option) \<Rightarrow> cell list \<Rightarrow> RGBAColor option list" where
  \<comment> \<open>\<open>color_rgb t\<close> stands for \<open>color(color_interp(t))?.rgb()\<close> of the d3 libraries;
      a sample whose colour is undefined is skipped\<close>
  "continuous_colors color_rgb row =
     concat (map (\<lambda>(n, m). case color_rgb (jdiv n m) of
                              None \<Rightarrow> []
                            | Some (r, g, b) \<Rightarrow> [Some [r, g, b]])
                 (divisions row))"

definition discrete_colors :: "cell list \<Rightarrow> RGBAColor option list" where
  \<comment> \<open>\<open>COLOR_MAP[value % 10]\<close> is pushed as it is, \<open>undefined\<close> (\<open>None\<close>) included\<close>
  "discrete_colors row = map (\<lambda>value. at_num COLOR_MAP (jrem (to_number value) (Fin 10))) row"

definition getLogColor ::
  "(jsnum \<Rightarrow> (jsnum \<times> jsnum \<times> jsnum) option) \<Rightarrow> LogCurveDataType option \<Rightarrow> string
     \<Rightarrow> error + RGBAColor option list" where
  \<comment> \<open>\<open>!log_id\<close> holds of \<open>undefined\<close> and of \<open>0\<close>; both branches begin by reading
      \<open>d.data[log_id]\<close> and throw when it is missing\<close>
  "getLogColor color_rgb d log_name =
     (case getLogIDByName d log_name of
        None \<Rightarrow> Inr []
      | Some log_id \<Rightarrow>
          if log_id = 0 then Inr []
          else
            (case curve_at d log_id of
               Inl e \<Rightarrow> Inl e
             | Inr None \<Rightarrow> Inr []
             | Inr (Some curve) \<Rightarrow>
                 (case row_at d log_id of
                    Inl e \<Rightarrow> Inl e
                  | Inr None \<Rightarrow> Inl TypeError
                  | Inr (Some row) \<Rightarrow>
                      if description curve = ''continuous''
                      then Inr (continuous_colors color_rgb row)
                      else Inr (discrete_colors row))))"

datatype 'a js = Undefined | Null | Value 'a

definition getLogWidth :: "LogCurveDataType option \<Rightarrow> string \<Rightarrow> error + cell list js" where
  \<comment> \<open>\<open>log_id ? d?.data[log_id] : null\<close>: \<open>undefined\<close> and \<open>0\<close> are falsy, \<open>-1\<close> is not\<close>
  "getLogWidth d log_name =
     (case getLogIDByName d log_name of
        None \<Rightarrow> Inr Null
      | Some log_id \<Rightarrow>
          if log_id = 0 then Inr Null
          else
            (case row_at d log_id of
               Inl e \<Rightarrow> Inl e
             | Inr None \<Rightarrow> Inr Undefined
             | Inr (Some row) \<Rightarrow> Inr (Value row)))"

section \<open>Picking\<close>

definition coord :: "jsnum list \<Rightarrow> int \<Rightarrow> jsnum" where
  \<comment> \<open>\<open>p[k]\<close> as an operand of \<open>-\<close>: a missing component is \<open>undefined\<close>, that is \<open>NaN\<close>\<close>
  "coord p k = (case at_index p k of None \<Rightarrow> NaN | Some x \<Rightarrow> x)"

fun components :: "cell \<Rightarrow> jsnum list" where
  \<comment> \<open>the indexed properties of a trajectory entry; a number has none\<close>
  "components (Pt p) = p"
| "components (Num _) = []"

definition sq_dist :: "cell \<Rightarrow> jsnum list \<Rightarrow> jsnum" where
  "sq_dist a b =
     (let dx = jsub (coord (components a) 0) (coord b 0);
          dy = jsub (coord (components a) 1) (coord b 1)
      in jadd (jmul dx dx) (jmul dy dy))"

definition squared_distance :: "cell \<Rightarrow> jsnum list option \<Rightarrow> error + jsnum" where
  \<comment> \<open>reading \<open>b[0]\<close> of an undefined \<open>b\<close> throws\<close>
  "squared_distance a b = (case b of None \<Rightarrow> Inl TypeError | Some b' \<Rightarrow> Inr (sq_dist a b'))"

record 'o PickInfo =
  object :: "'o option"
  coordinate :: "jsnum list option"

datatype 'i WellsPickInfo =
  Info 'i  \<comment> \<open>\<open>info\<close> as it came\<close>
| InfoWithLog 'i "cell option" string  \<comment> \<open>\<open>{...info, propertyValue, logName}\<close>\<close>

text \<open>
  The props as the interface \<open>WellsLayerProps\<close> declares them; \<open>getPickingInfo\<close> reads the
  declared string \<open>logName\<close>.
\<close>

record 'o WellsLayerProps =
  pointRadiusScale :: jsnum
  lineWidthScale :: jsnum
  outline :: bool
  selectedFeature :: "'o option"
  selectionEnabled :: bool
  logData :: "string + LogCurveDataType"
  logName :: string
  logRadius :: jsnum
  logCurves :: bool

function nearest_loop ::
  "cell list \<Rightarrow> jsnum list option \<Rightarrow> nat \<Rightarrow> jsnum \<Rightarrow> nat \<Rightarrow> error + nat" where
  "nearest_loop trajectory b i min_d vertex_index =
     (if i < length trajectory then
        (case squared_distance (trajectory ! i) b of
           Inl e \<Rightarrow> Inl e
         | Inr d \<Rightarrow>
             if jgt d min_d then nearest_loop trajectory b (Suc i) min_d vertex_index
             else nearest_loop trajectory b (Suc i) d i)
      else Inr vertex_index)"
  by pat_completeness auto
termination
  by (relation "measure (\<lambda>(trajectory, b, i, min_d, vertex_index). length trajectory - i)") auto

definition nearest_vertex :: "cell list \<Rightarrow> jsnum list option \<Rightarrow> error + nat" where
  \<comment> \<open>the scan of \<open>getPickingInfo\<close>, from \<open>min_d = Number.MAX_VALUE\<close> and \<open>vertex_index = 0\<close>\<close>
  "nearest_vertex trajectory b = nearest_loop trajectory b 0 (Fin MAX_VALUE) 0"

definition getPickingInfo ::
  "('o, 'z) WellsLayerProps_scheme \<Rightarrow> (LogCurveDataType, 'y) PickInfo_scheme
     \<Rightarrow> error + (LogCurveDataType, 'y) PickInfo_scheme WellsPickInfo" where
  "getPickingInfo props info =
     (case object info of
        None \<Rightarrow> Inr (Info info)
      | Some obj \<Rightarrow>
          (case data obj of
             None \<Rightarrow> Inr (Info info)
           | Some rows \<Rightarrow>
               (case at_index rows 0 of
                  None \<Rightarrow> Inl TypeError
                | Some trajectory \<Rightarrow>
                    (case nearest_vertex trajectory (coordinate info) of
                       Inl e \<Rightarrow> Inl e
                     | Inr vertex_index \<Rightarrow>
                         (case getLogIDByName (Some obj) (logName props) of
                            None \<Rightarrow> Inr (Info info)
                          | Some log_id \<Rightarrow>
                              if log_id = 0 then Inr (Info info)
                              else
                                (case at_index rows log_id of
                                   None \<Rightarrow> Inl TypeError
                                 | Some row \<Rightarrow>
                                     (case curve_at (Some obj) log_id of
                                        Inl e \<Rightarrow> Inl e
                                      | Inr None \<Rightarrow> Inl TypeError
                                      | Inr (Some curve) \<Rightarrow>
                                          Inr (InfoWithLog info
                                                 (at_index row (int vertex_index))
                                                 (name curve)))))))))"

section \<open>Selection\<close>

text \<open>
  \<open>onClick\<close> spreads \<open>this.props\<close>, and a spread copies the own enumerable keys of an
  object only. The props object of a layer holds as own keys the props the layer was
  created with; the defaults, among them \<open>defaultProps\<close> below, are on its prototype.
  A read \<open>this.props.k\<close> finds \<open>k\<close> among the own keys first, then on the prototype.
\<close>

datatype 'o prop_value = PUndefined | PBool bool | PNumber jsnum | PString string | PObject 'o

fun truthy :: "'o prop_value \<Rightarrow> bool" where
  "truthy PUndefined = False"
| "truthy (PBool b) = b"
| "truthy (PNumber n) = (n \<noteq> NaN \<and> n \<noteq> Fin 0)"
| "truthy (PString s) = (s \<noteq> [])"
| "truthy (PObject _) = True"

record 'o LayerProps =
  own_props :: "string \<rightharpoonup> 'o prop_value"
  default_props :: "string \<rightharpoonup> 'o prop_value"

definition defaultProps :: "string \<rightharpoonup> 'o prop_value" where
  "defaultProps = [''autoHighlight'' \<mapsto> PBool True, ''selectionEnabled'' \<mapsto> PBool True]"

definition read_prop :: "'o LayerProps \<Rightarrow> string \<Rightarrow> 'o prop_value" where
  \<comment> \<open>\<open>this.props[k]\<close>\<close>
  "read_prop props k =
     (case own_props props k of
        Some v \<Rightarrow> v
      | None \<Rightarrow> (case default_props props k of Some v \<Rightarrow> v | None \<Rightarrow> PUndefined))"

definition onClick ::
  "('o LayerProps \<Rightarrow> (string \<rightharpoonup> 'o prop_value) \<Rightarrow> 's \<Rightarrow> 's)
     \<Rightarrow> 'o LayerProps \<Rightarrow> ('o, 'y) PickInfo_scheme \<Rightarrow> 's \<Rightarrow> bool \<times> 's" where
  \<comment> \<open>\<open>patchLayerProps layer patch\<close> is the imported helper of \<open>../utils/layerTools\<close>,
      acting on the state \<open>'s\<close> of the host; the layer is given by its props. The patch
      \<open>{...this.props, selectedFeature: info.object}\<close> has the own keys of the props and the
      key \<open>selectedFeature\<close>\<close>
  "onClick patchLayerProps props info s =
     (if \<not> truthy (read_prop props ''selectionEnabled'') then (False, s)
      else
        (True,
         patchLayerProps props
           ((own_props props)
              (''selectedFeature'' \<mapsto>
                 (case object info of None \<Rightarrow> PUndefined | Some obj \<Rightarrow> PObject obj)))
           s))"

section \<open>The postcondition of the scan\<close>

text \<open>
  What the scan has established when it returns \<open>v'\<close>, started at index \<open>i\<close> with the
  bound \<open>m\<close> and the candidate \<open>v\<close> over the distances \<open>D 0, ..., D (n - 1)\<close>: either no
  distance from \<open>i\<close> on was within the bound and the candidate stands, or \<open>v'\<close> is an index
  from \<open>i\<close> on within the bound, no distance from \<open>i\<close> on is smaller, and every later one
  is greater.
\<close>

definition scan_post :: "(nat \<Rightarrow> jsnum) \<Rightarrow> nat \<Rightarrow> nat \<Rightarrow> jsnum \<Rightarrow> nat \<Rightarrow> nat \<Rightarrow> bool" where
  "scan_post D n i m v v' \<longleftrightarrow>
     (v' = v \<and> (\<forall>j. i \<le> j \<and> j < n \<longrightarrow> jgt (D j) m)) \<or>
     (i \<le> v' \<and> v' < n \<and> \<not> jgt (D v') m \<and>
      (\<forall>j. i \<le> j \<and> j < n \<longrightarrow> \<not> jgt (D v') (D j)) \<and>
      (\<forall>j. v' < j \<and> j < n \<longrightarrow> jgt (D j) (D v')))"

section \<open>Sample inputs\<close>

definition sample_rgb :: "jsnum \<Rightarrow> (jsnum \<times> jsnum \<times> jsnum) option" where
  \<comment> \<open>a colour function for the examples: the argument in each channel\<close>
  "sample_rgb t = Some (t, t, t)"

definition sample_log :: LogCurveDataType where
  "sample_log =
     \<lparr>header = Some \<lparr>header_name = ''W1''\<rparr>,
      curves = Some [\<lparr>name = ''MD'', description = ''continuous''\<rparr>,
                     \<lparr>name = ''GR'', description = ''discrete''\<rparr>,
                     \<lparr>name = ''PORO'', description = ''continuous''\<rparr>],
      data = Some [[Pt [Fin 0, Fin 0], Pt [Fin 3, Fin 4], Pt [Fin 6, Fin 8]],
                   [Num (Fin 9), Num (Fin 3), Num (Fin 7)],
                   [Num (Fin 5), Num (Fin 5), Num (Fin 5)]]\<rparr>"

definition sample_props :: "LogCurveDataType WellsLayerProps" where
  "sample_props =
     \<lparr>pointRadiusScale = Fin 8, lineWidthScale = Fin 5, outline = True,
      selectedFeature = None, selectionEnabled = True, logData = Inr sample_log,
      logName = ''GR'', logRadius = Fin 0, logCurves = True\<rparr>"

definition sample_info :: "LogCurveDataType PickInfo" where
  "sample_info = \<lparr>object = Some sample_log, coordinate = Some [Fin 3, Fin 3]\<rparr>"

definition sample_layer :: "LogCurveDataType LayerProps" where
  \<comment> \<open>a layer created with \<open>logName\<close> and \<open>pointRadiusScale\<close> only\<close>
  "sample_layer =
     \<lparr>own_props = [''logName'' \<mapsto> PString ''GR'', ''pointRadiusScale'' \<mapsto> PNumber (Fin 8)],
      default_props = defaultProps\<rparr>"

section \<open>Rounding\<close>

declare nearest_loop.simps [simp del]

lemma MAX_VALUE_pos: "0 < MAX_VALUE"
  by (simp add: MAX_VALUE_def)

lemma ulp_pos: "0 < ulp r"
  by (simp add: ulp_def)

lemma rne_of_int: "rne (of_int m) = m"
  by (simp add: rne_def)

lemma rne_nonneg: "0 \<le> x \<Longrightarrow> 0 \<le> rne x"
proof -
  assume "0 \<le> x"
  then have "0 \<le> \<lfloor>x\<rfloor>" by simp
  then show ?thesis by (simp add: rne_def Let_def)
qed

lemma fl_not_NaN: "fl r \<noteq> NaN"
  by (simp add: fl_def Let_def)

lemma fl_zero: "fl 0 = Fin 0"
  by (simp add: fl_def)

lemma fl_Fin_le: "fl r = Fin v \<Longrightarrow> v \<le> MAX_VALUE"
  using MAX_VALUE_pos by (auto simp: fl_def Let_def split: if_splits)

lemma fl_nonneg: "0 \<le> r \<Longrightarrow> fl r \<noteq> NegInf"
proof -
  assume r: "0 \<le> r"
  have "0 \<le> r / ulp r" using r ulp_pos[of r] by simp
  then have "0 \<le> rne (r / ulp r)" by (rule rne_nonneg)
  then have "0 \<le> of_int (rne (r / ulp r)) * ulp r" using ulp_pos[of r] by simp
  with MAX_VALUE_pos have "\<not> of_int (rne (r / ulp r)) * ulp r < - MAX_VALUE" by linarith
  then show ?thesis by (simp add: fl_def Let_def)
qed

lemma expo_eq:
  assumes "r \<noteq> 0" and "2 powr of_int e \<le> \<bar>r\<bar>" and "\<bar>r\<bar> < 2 powr of_int (e + 1)"
    and "- 1022 \<le> e"
  shows "expo r = e"
proof -
  have "\<lfloor>log 2 \<bar>r\<bar>\<rfloor> = e"
    using assms(1-3) by (simp add: floor_log_eq_powr_iff)
  with assms(4) show ?thesis by (simp add: expo_def)
qed

lemma expo_le:
  assumes "r \<noteq> 0" and "\<bar>r\<bar> < 2 powr of_int (e + 1)" and "- 1022 \<le> e"
  shows "expo r \<le> e"
proof -
  have "log 2 \<bar>r\<bar> < of_int (e + 1)"
    using assms(1,2) by (simp add: log_less_iff)
  then have "\<lfloor>log 2 \<bar>r\<bar>\<rfloor> < e + 1" by (simp only: floor_less_iff)
  with assms(3) show ?thesis by (simp add: expo_def)
qed

lemma fl_of_int:
  assumes "\<bar>n\<bar> < 2 ^ 53"
  shows "fl (of_int n) = Fin (of_int n)"
proof (cases "n = 0")
  case True
  then show ?thesis by (simp add: fl_zero)
next
  case False
  let ?r = "of_int n :: real"
  have r0: "?r \<noteq> 0" using False by simp
  have "\<bar>?r\<bar> < 2 ^ 53" using assms by (metis of_int_abs of_int_less_numeral_power_cancel_iff)
  then have lt: "\<bar>?r\<bar> < 2 powr of_int (52 + 1)" by simp
  have le: "expo ?r \<le> 52" using r0 lt by (rule expo_le) simp
  define k where "k = nat (52 - expo ?r)"
  have "(2::real) powr of_int (expo ?r - 52) =
      (if 0 \<le> expo ?r - 52 then 2 ^ nat (expo ?r - 52) else 1 / 2 ^ nat (- (expo ?r - 52)))"
    by (rule powr_int) simp
  then have u: "ulp ?r = 1 / 2 ^ k"
    unfolding ulp_def k_def using le
    by (cases "expo ?r = 52") (simp_all del: of_int_diff)
  have "?r / ulp ?r = of_int (n * 2 ^ k)" by (simp add: u)
  then have "rne (?r / ulp ?r) = n * 2 ^ k" by (simp only: rne_of_int)
  then have v: "of_int (rne (?r / ulp ?r)) * ulp ?r = ?r" by (simp add: u)
  have "(2::real) ^ 53 \<le> MAX_VALUE" by (simp add: MAX_VALUE_def)
  with \<open>\<bar>?r\<bar> < 2 ^ 53\<close> have "\<not> MAX_VALUE < ?r" "\<not> ?r < - MAX_VALUE" by linarith+
  then show ?thesis using r0 v by (simp add: fl_def Let_def)
qed

lemma fl_numeral: "(numeral k :: int) < 2 ^ 53 \<Longrightarrow> fl (numeral k) = Fin (numeral k)"
  using fl_of_int[of "numeral k"] by simp

lemma fl_neg_numeral: "(numeral k :: int) < 2 ^ 53 \<Longrightarrow> fl (- numeral k) = Fin (- numeral k)"
  using fl_of_int[of "- numeral k"] by simp

lemma fl_one: "fl 1 = Fin 1"
  using fl_of_int[of 1] by simp

lemma fl_neg_one: "fl (- 1) = Fin (- 1)"
  using fl_of_int[of "- 1"] by simp

lemma fl_binade:
  assumes "r \<noteq> 0" and "2 powr of_int e \<le> \<bar>r\<bar>" and "\<bar>r\<bar> < 2 powr of_int (e + 1)"
    and "- 1022 \<le> e"
  shows "fl r =
    (let v = of_int (rne (r / 2 powr of_int (e - 52))) * 2 powr of_int (e - 52)
     in if MAX_VALUE < v then PosInf else if v < - MAX_VALUE then NegInf else Fin v)"
  using assms(1) expo_eq[OF assms] by (simp add: fl_def ulp_def)

lemma fl_gt_max: "jgt (fl r) (Fin MAX_VALUE) \<Longrightarrow> fl r = PosInf"
proof (cases "fl r")
  case (Fin v)
  then have "v \<le> MAX_VALUE" by (rule fl_Fin_le)
  moreover assume "jgt (fl r) (Fin MAX_VALUE)"
  ultimately show ?thesis using Fin by simp
qed (simp_all add: fl_not_NaN)

lemma fl_two_54: "fl 18014398509481984 = Fin 18014398509481984"
  using fl_binade[of 18014398509481984 54]
  by (simp add: rne_def Let_def MAX_VALUE_def powr_int)

lemma fl_two_54_plus_1: "fl 18014398509481985 = Fin 18014398509481984"
  using fl_binade[of 18014398509481985 54]
  by (simp add: rne_def Let_def MAX_VALUE_def powr_int)

lemma fl_above_MAX_VALUE: "fl (MAX_VALUE + 1) = Fin MAX_VALUE"
  using fl_binade[of "MAX_VALUE + 1" 1023]
  by (simp add: rne_def Let_def MAX_VALUE_def powr_int)

text \<open>
  Rounding at work: a tie goes to the even significand, down or up; the exact value
  \<open>2^1024 - 2^970\<close>, half way beyond \<open>Number.MAX_VALUE\<close>, overflows; and below
  \<open>2^-1022\<close> the doubles are \<open>2^-1074\<close> apart.
\<close>

lemma fl_tie_down: "fl (2 ^ 53 + 1) = Fin (2 ^ 53)"
  using fl_binade[of "2 ^ 53 + 1" 53] by (simp add: rne_def Let_def MAX_VALUE_def powr_int)

lemma fl_tie_up: "fl (2 ^ 53 + 3) = Fin (2 ^ 53 + 4)"
  using fl_binade[of "2 ^ 53 + 3" 53] by (simp add: rne_def Let_def MAX_VALUE_def powr_int)

lemma fl_overflow: "fl (2 ^ 1024 - 2 ^ 970) = PosInf"
  using fl_binade[of "2 ^ 1024 - 2 ^ 970" 1023]
  by (simp add: rne_def Let_def MAX_VALUE_def powr_int)

lemma expo_subnormal: "expo (3 / 2 ^ 1075) = - 1022"
proof -
  have "\<lfloor>log 2 \<bar>3 / 2 ^ 1075 :: real\<bar>\<rfloor> = - 1074"
    by (subst floor_log_eq_powr_iff) (simp_all add: powr_neg_numeral)
  then show ?thesis by (simp add: expo_def)
qed

lemma fl_subnormal: "fl (3 / 2 ^ 1075) = Fin (2 / 2 ^ 1074)"
  unfolding fl_def ulp_def expo_subnormal
  by (simp add: rne_def Let_def MAX_VALUE_def powr_neg_numeral)

lemmas fl_eval = fl_zero fl_one fl_neg_one fl_numeral fl_neg_numeral fl_two_54 fl_two_54_plus_1

section \<open>The order of numbers\<close>

lemma jgt_irrefl: "\<not> jgt a a"
  by (cases a) simp_all

lemma jgt_asym: "jgt a b \<Longrightarrow> \<not> jgt b a"
  by (cases a; cases b) simp_all

lemma not_jgt_trans:
  "b \<noteq> NaN \<Longrightarrow> \<not> jgt a b \<Longrightarrow> \<not> jgt b c \<Longrightarrow> \<not> jgt a c"
  by (cases a; cases b; cases c) simp_all

lemma jgt_not_jgt: "jgt a b \<Longrightarrow> \<not> jgt c b \<Longrightarrow> c \<noteq> NaN \<Longrightarrow> jgt a c"
  by (cases a; cases b; cases c) simp_all

lemma jadd_gt_max: "jgt (jadd x y) (Fin MAX_VALUE) \<Longrightarrow> jadd x y = PosInf"
  by (cases x; cases y) (simp_all add: fl_gt_max)

lemma sq_dist_gt_max: "jgt (sq_dist a c) (Fin MAX_VALUE) \<Longrightarrow> sq_dist a c = PosInf"
  unfolding sq_dist_def Let_def by (rule jadd_gt_max)

lemma nearest_loop_step:
  "i < length traj \<Longrightarrow>
   nearest_loop traj (Some c) i m v =
     (if jgt (sq_dist (traj ! i) c) m then nearest_loop traj (Some c) (Suc i) m v
      else nearest_loop traj (Some c) (Suc i) (sq_dist (traj ! i) c) i)"
  by (subst nearest_loop.simps) (simp add: squared_distance_def)

lemma nearest_loop_done: "length traj \<le> i \<Longrightarrow> nearest_loop traj b i m v = Inr v"
  by (subst nearest_loop.simps) simp


lemma from_Suc: "P i \<Longrightarrow> \<forall>j. Suc i \<le> j \<and> j < n \<longrightarrow> P j \<Longrightarrow> \<forall>j. i \<le> j \<and> j < n \<longrightarrow> P j"
proof (intro allI impI)
  fix j assume a: "P i" "\<forall>j. Suc i \<le> j \<and> j < n \<longrightarrow> P j" "i \<le> j \<and> j < n"
  show "P j"
  proof (cases "j = i")
    case True with a show ?thesis by simp
  next
    case False
    with a have "Suc i \<le> j \<and> j < n" by simp
    with a show ?thesis by blast
  qed
qed

lemma scan_post_done: "scan_post D n n m v v"
proof -
  have "\<forall>j. n \<le> j \<and> j < n \<longrightarrow> jgt (D j) m" by auto
  then show ?thesis unfolding scan_post_def by blast
qed

lemma scan_post_skip:
  assumes nan: "\<forall>j<n. D j \<noteq> NaN" and gt: "jgt (D i) m"
    and post: "scan_post D n (Suc i) m v v'"
  shows "scan_post D n i m v v'"
proof -
  from post consider
    (keep) "v' = v" "\<forall>j. Suc i \<le> j \<and> j < n \<longrightarrow> jgt (D j) m"
  | (later) "Suc i \<le> v'" "v' < n" "\<not> jgt (D v') m"
      "\<forall>j. Suc i \<le> j \<and> j < n \<longrightarrow> \<not> jgt (D v') (D j)"
      "\<forall>j. v' < j \<and> j < n \<longrightarrow> jgt (D j) (D v')"
    unfolding scan_post_def by blast
  then show ?thesis
  proof cases
    case keep
    have "\<forall>j. i \<le> j \<and> j < n \<longrightarrow> jgt (D j) m"
      using gt keep(2) by (rule from_Suc)
    with keep(1) show ?thesis unfolding scan_post_def by blast
  next
    case later
    have "D v' \<noteq> NaN" using nan later(2) by simp
    with gt later(3) have "jgt (D i) (D v')" by (rule jgt_not_jgt)
    then have "\<not> jgt (D v') (D i)" by (rule jgt_asym)
    then have "\<forall>j. i \<le> j \<and> j < n \<longrightarrow> \<not> jgt (D v') (D j)"
      using later(4) by (rule from_Suc)
    moreover have "i \<le> v'" using later(1) by simp
    ultimately show ?thesis unfolding scan_post_def using later(2,3,5) by blast
  qed
qed

lemma scan_post_take:
  assumes nan: "\<forall>j<n. D j \<noteq> NaN" and lt: "i < n" and le: "\<not> jgt (D i) m"
    and post: "scan_post D n (Suc i) (D i) i v'"
  shows "scan_post D n i m v v'"
proof -
  from post consider
    (keep) "v' = i" "\<forall>j. Suc i \<le> j \<and> j < n \<longrightarrow> jgt (D j) (D i)"
  | (later) "Suc i \<le> v'" "v' < n" "\<not> jgt (D v') (D i)"
      "\<forall>j. Suc i \<le> j \<and> j < n \<longrightarrow> \<not> jgt (D v') (D j)"
      "\<forall>j. v' < j \<and> j < n \<longrightarrow> jgt (D j) (D v')"
    unfolding scan_post_def by blast
  then show ?thesis
  proof cases
    case keep
    have "\<forall>j. Suc i \<le> j \<and> j < n \<longrightarrow> \<not> jgt (D i) (D j)"
      using keep(2) jgt_asym by blast
    with jgt_irrefl have "\<forall>j. i \<le> j \<and> j < n \<longrightarrow> \<not> jgt (D i) (D j)"
      by (rule from_Suc)
    moreover have "\<forall>j. i < j \<and> j < n \<longrightarrow> jgt (D j) (D i)"
      using keep(2) by simp
    ultimately show ?thesis unfolding scan_post_def using keep(1) lt le by blast
  next
    case later
    have "D i \<noteq> NaN" using nan lt by simp
    then have "\<not> jgt (D v') m" using later(3) le by (rule not_jgt_trans)
    moreover have "\<forall>j. i \<le> j \<and> j < n \<longrightarrow> \<not> jgt (D v') (D j)"
      using later(3,4) by (rule from_Suc)
    moreover have "i \<le> v'" using later(1) by simp
    ultimately show ?thesis unfolding scan_post_def using later(2,5) by blast
  qed
qed

lemma nearest_loop_scan:
  assumes nan: "\<forall>j<length traj. sq_dist (traj ! j) c \<noteq> NaN"
  shows "i \<le> length traj \<Longrightarrow>
    \<exists>v'. nearest_loop traj (Some c) i m v = Inr v' \<and>
      scan_post (\<lambda>j. sq_dist (traj ! j) c) (length traj) i m v v'"
proof (induction "length traj - i" arbitrary: i m v)
  case 0
  then have "length traj = i" by simp
  then show ?case using scan_post_done[of "\<lambda>j. sq_dist (traj ! j) c" i m v]
    by (simp add: nearest_loop_done)
next
  case (Suc k)
  then have lt: "i < length traj" by simp
  have k: "k = length traj - Suc i" and le: "Suc i \<le> length traj" using Suc.hyps(2) by simp_all
  show ?case
  proof (cases "jgt (sq_dist (traj ! i) c) m")
    case True
    from Suc.hyps(1)[OF k le, of m v] obtain v' where
      r: "nearest_loop traj (Some c) (Suc i) m v = Inr v'" and
      p: "scan_post (\<lambda>j. sq_dist (traj ! j) c) (length traj) (Suc i) m v v'" by blast
    have "nearest_loop traj (Some c) i m v = Inr v'"
      using True r lt by (simp add: nearest_loop_step)
    moreover have "scan_post (\<lambda>j. sq_dist (traj ! j) c) (length traj) i m v v'"
      using nan True p by (rule scan_post_skip)
    ultimately show ?thesis by blast
  next
    case False
    from Suc.hyps(1)[OF k le, of "sq_dist (traj ! i) c" i] obtain v' where
      r: "nearest_loop traj (Some c) (Suc i) (sq_dist (traj ! i) c) i = Inr v'" and
      p: "scan_post (\<lambda>j. sq_dist (traj ! j) c) (length traj) (Suc i) (sq_dist (traj ! i) c) i v'"
      by blast
    have "nearest_loop traj (Some c) i m v = Inr v'"
      using False r lt by (simp add: nearest_loop_step)
    moreover have "scan_post (\<lambda>j. sq_dist (traj ! j) c) (length traj) i m v v'"
      using nan lt False p by (rule scan_post_take)
    ultimately show ?thesis by blast
  qed
qed

section \<open>The nearest vertex\<close>

lemma nearest_vertex_scan:
  assumes "\<forall>j<length traj. sq_dist (traj ! j) c \<noteq> NaN"
  shows "\<exists>v. nearest_vertex traj (Some c) = Inr v \<and>
    scan_post (\<lambda>j. sq_dist (traj ! j) c) (length traj) 0 (Fin MAX_VALUE) 0 v"
  unfolding nearest_vertex_def using nearest_loop_scan[OF assms, of 0] by simp

lemmas scan_eval = nearest_vertex_def nearest_loop.simps squared_distance_def sq_dist_def coord_def at_index_def jsub_def fl_eval MAX_VALUE_def jle_def

text \<open>
  C1 (as amended). For a non-empty trajectory and a defined pointer coordinate, provided
  that no squared distance of a trajectory vertex to the coordinate is \<open>NaN\<close>, the scan of
  \<open>getPickingInfo\<close> returns an index of the trajectory whose squared distance is \<open><=\<close> the
  squared distance of every vertex of the trajectory.
\<close>

theorem nearest_vertex_minimizes:
  assumes ne: "traj \<noteq> []"
    and nan: "\<forall>j<length traj. sq_dist (traj ! j) c \<noteq> NaN"
  shows "\<exists>v. nearest_vertex traj (Some c) = Inr v \<and> v < length traj \<and>
    (\<forall>i<length traj. jle (sq_dist (traj ! v) c) (sq_dist (traj ! i) c))"
proof -
  let ?D = "\<lambda>j. sq_dist (traj ! j) c"
  from nearest_vertex_scan[OF nan] obtain v where
    r: "nearest_vertex traj (Some c) = Inr v" and
    p: "scan_post ?D (length traj) 0 (Fin MAX_VALUE) 0 v" by blast
  from p consider
    (keep) "v = 0" "\<forall>j. 0 \<le> j \<and> j < length traj \<longrightarrow> jgt (?D j) (Fin MAX_VALUE)"
  | (found) "v < length traj" "\<forall>j. 0 \<le> j \<and> j < length traj \<longrightarrow> \<not> jgt (?D v) (?D j)"
    unfolding scan_post_def by blast
  then have "v < length traj \<and> (\<forall>i<length traj. jle (?D v) (?D i))"
  proof cases
    case keep
    have inf: "\<forall>j<length traj. ?D j = PosInf"
      using keep(2) sq_dist_gt_max by simp
    have v: "v < length traj" using keep(1) ne by simp
    have "\<forall>i<length traj. jle (?D v) (?D i)"
    proof (intro allI impI)
      fix i assume "i < length traj"
      with inf v have "?D v = PosInf" "?D i = PosInf" by simp_all
      then show "jle (?D v) (?D i)" by (simp add: jle_def)
    qed
    with v show ?thesis by simp
  next
    case found
    have "\<forall>i<length traj. jle (?D v) (?D i)"
    proof (intro allI impI)
      fix i assume i: "i < length traj"
      with nan found(1) have "?D v \<noteq> NaN" "?D i \<noteq> NaN" by simp_all
      moreover from found(2) i have "\<not> jgt (?D v) (?D i)" by simp
      ultimately show "jle (?D v) (?D i)" by (simp add: jle_def)
    qed
    with found(1) show ?thesis by simp
  qed
  with r show ?thesis by blast
qed

theorem nearest_vertex_minimizes_witness:
  "nearest_vertex [Pt [Fin 0, Fin 0], Pt [Fin 3, Fin 4], Pt [Fin 6, Fin 8]] (Some [Fin 3, Fin 3]) = Inr 1 \<and>
   jle (sq_dist (Pt [Fin 3, Fin 4]) [Fin 3, Fin 3]) (sq_dist (Pt [Fin 0, Fin 0]) [Fin 3, Fin 3]) \<and>
   jle (sq_dist (Pt [Fin 3, Fin 4]) [Fin 3, Fin 3]) (sq_dist (Pt [Fin 6, Fin 8]) [Fin 3, Fin 3]) \<and>
   sq_dist (Pt [Fin 0, Fin 0]) [Fin 3, Fin 3] = Fin 18 \<and>
   sq_dist (Pt [Fin 3, Fin 4]) [Fin 3, Fin 3] = Fin 1 \<and>
   sq_dist (Pt [Fin 6, Fin 8]) [Fin 3, Fin 3] = Fin 34"
  using nearest_vertex_minimizes[of "[Pt [Fin 0, Fin 0], Pt [Fin 3, Fin 4], Pt [Fin 6, Fin 8]]" "[Fin 3, Fin 3]"]
  by (simp add: scan_eval)

text \<open>
  C1 as stated fails when a distance is \<open>NaN\<close>: the comparison \<open>d > min_d\<close> is then
  false, the vertex is taken, and from then on every vertex is. On the trajectory
  \<open>[[0, 0], [NaN, 0], [5, 0]]\<close> with the pointer at \<open>[0, 0]\<close> the scan returns index 2, at
  squared distance 25, although index 0 is at squared distance 0.
\<close>

theorem nearest_vertex_nan_counterexample:
  "nearest_vertex [Pt [Fin 0, Fin 0], Pt [NaN, Fin 0], Pt [Fin 5, Fin 0]] (Some [Fin 0, Fin 0]) = Inr 2 \<and>
   \<not> jle (sq_dist (Pt [Fin 5, Fin 0]) [Fin 0, Fin 0]) (sq_dist (Pt [Fin 0, Fin 0]) [Fin 0, Fin 0])"
  by (simp add: scan_eval)

text \<open>
  C2 (as amended). Ties are resolved by "last wins": provided that no squared distance is
  \<open>NaN\<close> and at least one is not \<open>Infinity\<close>, the index returned by the scan attains the
  minimal squared distance, and every index whose squared distance equals that of the
  returned index is less than or equal to it.
\<close>

theorem nearest_vertex_last_wins:
  assumes nan: "\<forall>j<length traj. sq_dist (traj ! j) c \<noteq> NaN"
    and fin: "\<exists>j<length traj. sq_dist (traj ! j) c \<noteq> PosInf"
  shows "\<exists>v. nearest_vertex traj (Some c) = Inr v \<and> v < length traj \<and>
    (\<forall>i<length traj. jle (sq_dist (traj ! v) c) (sq_dist (traj ! i) c)) \<and>
    (\<forall>i<length traj. sq_dist (traj ! i) c = sq_dist (traj ! v) c \<longrightarrow> i \<le> v)"
proof -
  let ?D = "\<lambda>j. sq_dist (traj ! j) c"
  from nearest_vertex_scan[OF nan] obtain v where
    r: "nearest_vertex traj (Some c) = Inr v" and
    p: "scan_post ?D (length traj) 0 (Fin MAX_VALUE) 0 v" by blast
  from fin obtain k where k: "k < length traj" "?D k \<noteq> PosInf" by blast
  then have "\<not> jgt (?D k) (Fin MAX_VALUE)" using sq_dist_gt_max by blast
  with k(1) have "\<not> (\<forall>j. 0 \<le> j \<and> j < length traj \<longrightarrow> jgt (?D j) (Fin MAX_VALUE))" by blast
  with p have v: "v < length traj"
    and least: "\<forall>j. 0 \<le> j \<and> j < length traj \<longrightarrow> \<not> jgt (?D v) (?D j)"
    and later: "\<forall>j. v < j \<and> j < length traj \<longrightarrow> jgt (?D j) (?D v)"
    unfolding scan_post_def by blast+
  have 1: "\<forall>i<length traj. jle (?D v) (?D i)"
  proof (intro allI impI)
    fix i assume i: "i < length traj"
    with nan v have "?D v \<noteq> NaN" "?D i \<noteq> NaN" by simp_all
    moreover from least i have "\<not> jgt (?D v) (?D i)" by simp
    ultimately show "jle (?D v) (?D i)" by (simp add: jle_def)
  qed
  have 2: "\<forall>i<length traj. ?D i = ?D v \<longrightarrow> i \<le> v"
  proof (intro allI impI)
    fix i assume i: "i < length traj" and eq: "?D i = ?D v"
    show "i \<le> v"
    proof (rule ccontr)
      assume "\<not> i \<le> v"
      with later i have "jgt (?D i) (?D v)" by simp
      with eq show False by (simp add: jgt_irrefl)
    qed
  qed
  from r v 1 2 show ?thesis by blast
qed

text \<open>
  Two vertices at squared distance 1 before a farther one; and the vertices \<open>[2^27, 0]\<close>
  and \<open>[2^27, 1]\<close>, whose squared distances to the origin, \<open>2^54\<close> and \<open>2^54 + 1\<close>, are
  the same double.
\<close>

theorem nearest_vertex_last_wins_witness:
  "nearest_vertex [Pt [Fin 1, Fin 0], Pt [Fin (- 1), Fin 0], Pt [Fin 2, Fin 0]] (Some [Fin 0, Fin 0]) = Inr 1 \<and>
   sq_dist (Pt [Fin 1, Fin 0]) [Fin 0, Fin 0] = Fin 1 \<and>
   sq_dist (Pt [Fin (- 1), Fin 0]) [Fin 0, Fin 0] = Fin 1 \<and>
   sq_dist (Pt [Fin 2, Fin 0]) [Fin 0, Fin 0] = Fin 4 \<and>
   nearest_vertex [Pt [Fin 134217728, Fin 0], Pt [Fin 134217728, Fin 1]] (Some [Fin 0, Fin 0]) = Inr 1 \<and>
   sq_dist (Pt [Fin 134217728, Fin 0]) [Fin 0, Fin 0] = Fin 18014398509481984 \<and>
   sq_dist (Pt [Fin 134217728, Fin 1]) [Fin 0, Fin 0] = Fin 18014398509481984"
  using nearest_vertex_last_wins[of "[Pt [Fin 1, Fin 0], Pt [Fin (- 1), Fin 0], Pt [Fin 2, Fin 0]]" "[Fin 0, Fin 0]"]
    nearest_vertex_last_wins[of "[Pt [Fin 134217728, Fin 0], Pt [Fin 134217728, Fin 1]]" "[Fin 0, Fin 0]"]
  by (simp add: scan_eval)

text \<open>
  C2 as stated fails: on the trajectory \<open>[[1, 0], [-1, 0]]\<close> with the pointer at \<open>[0, 0]\<close>
  both vertices are at squared distance 1 and the scan returns index 1, not index 0.
\<close>

theorem nearest_vertex_tie_counterexample:
  "nearest_vertex [Pt [Fin 1, Fin 0], Pt [Fin (- 1), Fin 0]] (Some [Fin 0, Fin 0]) = Inr 1 \<and>
   sq_dist (Pt [Fin 1, Fin 0]) [Fin 0, Fin 0] = Fin 1 \<and>
   sq_dist (Pt [Fin (- 1), Fin 0]) [Fin 0, Fin 0] = Fin 1"
  by (simp add: scan_eval)

section \<open>Finding a curve by name\<close>

lemma findIndex_from_none: "\<forall>x\<in>set xs. \<not> P x \<Longrightarrow> findIndex_from P xs k = - 1"
  by (induction xs arbitrary: k) simp_all

lemma findIndex_from_first:
  "i < length xs \<Longrightarrow> P (xs ! i) \<Longrightarrow> \<forall>j<i. \<not> P (xs ! j) \<Longrightarrow>
   findIndex_from P xs k = k + int i"
proof (induction xs arbitrary: i k)
  case Nil
  then show ?case by simp
next
  case (Cons x xs)
  show ?case
  proof (cases i)
    case 0
    with Cons.prems show ?thesis by simp
  next
    case (Suc i')
    with Cons.prems have "\<not> P x" by auto
    moreover have "findIndex_from P xs (k + 1) = (k + 1) + int i'"
    proof (rule Cons.IH)
      show "i' < length xs" using Cons.prems(1) Suc by simp
      show "P (xs ! i')" using Cons.prems(2) Suc by simp
      show "\<forall>j<i'. \<not> P (xs ! j)"
      proof (intro allI impI)
        fix j assume "j < i'"
        then have "Suc j < i" using Suc by simp
        with Cons.prems(3) have "\<not> P ((x # xs) ! Suc j)" by blast
        then show "\<not> P (xs ! j)" by simp
      qed
    qed
    ultimately show ?thesis using Suc by simp
  qed
qed

lemma getLogIDByName_none:
  assumes "curves d = Some cs"
    and "\<forall>item\<in>set cs. toLowerCase (name item) \<noteq> toLowerCase log_name"
  shows "getLogIDByName (Some d) log_name = Some (- 1)"
  using assms by (simp add: getLogIDByName_def findIndex_def findIndex_from_none)

lemma getLogIDByName_first:
  assumes "curves d = Some cs" and "i < length cs"
    and "toLowerCase (name (cs ! i)) = toLowerCase log_name"
    and "\<forall>j<i. toLowerCase (name (cs ! j)) \<noteq> toLowerCase log_name"
  shows "getLogIDByName (Some d) log_name = Some (int i)"
  using assms(1)
    findIndex_from_first[of i cs "\<lambda>item. toLowerCase (name item) = toLowerCase log_name" 0,
      OF assms(2) assms(3) assms(4)]
  by (simp add: getLogIDByName_def findIndex_def)

lemmas log_eval = getLogColor_def getLogWidth_def getLogIDByName_def findIndex_def toLowerCase_def
  curve_at_def row_at_def at_index_def discrete_colors_def continuous_colors_def divisions_def
  Let_def Math_min_def Math_max_def jmin_def jmax_def jsub_def fl_eval MAX_VALUE_def trunc_def
  COLOR_MAP_def sample_log_def sample_rgb_def

section \<open>The colours of a log curve\<close>

text \<open>
  C3. When no entry of \<open>d.curves\<close> has a name equal to \<open>log_name\<close> up to case (also when
  \<open>d\<close> has no \<open>curves\<close> at all), \<open>getLogColor\<close> returns the empty array: \<open>findIndex\<close> gives
  \<open>-1\<close>, and \<open>d.curves[-1]\<close> is undefined.
\<close>

theorem getLogColor_missing_name:
  assumes "\<forall>cs. curves d = Some cs \<longrightarrow>
             (\<forall>item\<in>set cs. toLowerCase (name item) \<noteq> toLowerCase log_name)"
  shows "getLogColor color_rgb (Some d) log_name = Inr []"
proof (cases "curves d")
  case None
  then show ?thesis by (simp add: getLogColor_def getLogIDByName_def)
next
  case (Some cs)
  with assms have "\<forall>item\<in>set cs. toLowerCase (name item) \<noteq> toLowerCase log_name" by blast
  with Some have "getLogIDByName (Some d) log_name = Some (- 1)" by (rule getLogIDByName_none)
  then show ?thesis using Some by (simp add: getLogColor_def curve_at_def at_index_def)
qed

theorem getLogColor_missing_name_witness:
  "getLogColor sample_rgb (Some sample_log) ''Perm'' = Inr []"
  using getLogColor_missing_name[of sample_log "''Perm''" sample_rgb]
  by (simp add: sample_log_def toLowerCase_def)

lemma length_pushed_le:
  "length (concat (map (\<lambda>(n, m). case color_rgb (jdiv n m) of
                                    None \<Rightarrow> []
                                  | Some (r, g, b) \<Rightarrow> [Some [r, g, b]]) xs)) \<le> length xs"
  by (induction xs) (auto split: option.splits)

lemma length_pushed_eq:
  "\<forall>(n, m)\<in>set xs. color_rgb (jdiv n m) \<noteq> None \<Longrightarrow>
   length (concat (map (\<lambda>(n, m). case color_rgb (jdiv n m) of
                                    None \<Rightarrow> []
                                  | Some (r, g, b) \<Rightarrow> [Some [r, g, b]]) xs)) = length xs"
  by (induction xs) (auto split: option.splits)

lemma length_divisions: "length (divisions row) = length row"
  by (simp add: divisions_def Let_def)

lemma length_continuous_colors_le: "length (continuous_colors color_rgb row) \<le> length row"
  unfolding continuous_colors_def
  using length_pushed_le[of color_rgb "divisions row"] by (simp add: length_divisions)

lemma length_continuous_colors_eq:
  assumes "\<forall>(n, m)\<in>set (divisions row). color_rgb (jdiv n m) \<noteq> None"
  shows "length (continuous_colors color_rgb row) = length row"
  unfolding continuous_colors_def
  using length_pushed_eq[OF assms] by (simp add: length_divisions)

text \<open>
  C4 (as amended). When the first entry of \<open>d.curves\<close> whose name equals \<open>log_name\<close> up to
  case is at an index \<open>i \<ge> 1\<close> and the row \<open>d.data[i]\<close> exists, \<open>getLogColor\<close> returns an
  array no longer than \<open>d.data[i]\<close>; it has exactly one entry per sample when the curve is
  not described as continuous, and when it is and the colour library yields a colour for
  every normalized sample.
\<close>

theorem getLogColor_one_color_per_sample:
  assumes cs: "curves d = Some cs" and i: "i < length cs"
    and match: "toLowerCase (name (cs ! i)) = toLowerCase log_name"
    and first: "\<forall>j<i. toLowerCase (name (cs ! j)) \<noteq> toLowerCase log_name"
    and pos: "0 < i"
    and rows: "data d = Some rows" and row: "i < length rows"
  shows "\<exists>colors. getLogColor color_rgb (Some d) log_name = Inr colors \<and>
    length colors \<le> length (rows ! i) \<and>
    (description (cs ! i) \<noteq> ''continuous'' \<or>
       (\<forall>(n, m)\<in>set (divisions (rows ! i)). color_rgb (jdiv n m) \<noteq> None)
     \<longrightarrow> length colors = length (rows ! i))"
proof -
  have id: "getLogIDByName (Some d) log_name = Some (int i)"
    using cs i match first by (rule getLogIDByName_first)
  have c: "curve_at (Some d) (int i) = Inr (Some (cs ! i))"
    using cs i by (simp add: curve_at_def at_index_def)
  have r: "row_at (Some d) (int i) = Inr (Some (rows ! i))"
    using rows row by (simp add: row_at_def at_index_def)
  show ?thesis
  proof (cases "description (cs ! i) = ''continuous''")
    case True
    then have "getLogColor color_rgb (Some d) log_name = Inr (continuous_colors color_rgb (rows ! i))"
      using id c r pos by (simp add: getLogColor_def)
    then show ?thesis
      using length_continuous_colors_le[of color_rgb "rows ! i"]
        length_continuous_colors_eq[of "rows ! i" color_rgb] True
      by simp
  next
    case False
    then have "getLogColor color_rgb (Some d) log_name = Inr (discrete_colors (rows ! i))"
      using id c r pos by (simp add: getLogColor_def)
    then show ?thesis by (simp add: discrete_colors_def)
  qed
qed

theorem getLogColor_one_color_per_sample_witness:
  "getLogColor sample_rgb (Some sample_log) ''gr'' =
     Inr [None, Some [Fin 255, Fin 255, Fin 0, Fin 255], Some [Fin 125, Fin 255, Fin 125, Fin 255]]"
  using getLogColor_one_color_per_sample[of sample_log
      "[\<lparr>name = ''MD'', description = ''continuous''\<rparr>,
        \<lparr>name = ''GR'', description = ''discrete''\<rparr>,
        \<lparr>name = ''PORO'', description = ''continuous''\<rparr>]" 1 "''gr''"
      "[[Pt [Fin 0, Fin 0], Pt [Fin 3, Fin 4], Pt [Fin 6, Fin 8]],
        [Num (Fin 9), Num (Fin 3), Num (Fin 7)],
        [Num (Fin 5), Num (Fin 5), Num (Fin 5)]]" sample_rgb]
  by (simp add: log_eval)

text \<open>
  C4 as stated fails at index 0, which the test \<open>!log_id\<close> takes for a missing curve:
  the name \<open>md\<close> matches the first curve of the sample, whose row has three entries, and
  the result is the empty array.
\<close>

theorem getLogColor_first_curve_counterexample:
  "getLogIDByName (Some sample_log) ''md'' = Some 0 \<and>
   getLogColor sample_rgb (Some sample_log) ''md'' = Inr [] \<and>
   row_at (Some sample_log) 0 = Inr (Some [Pt [Fin 0, Fin 0], Pt [Fin 3, Fin 4], Pt [Fin 6, Fin 8]])"
  by (simp add: log_eval)

section \<open>The remainder by ten and the colour table\<close>

lemma jrem_10_nat: "0 \<le> k \<Longrightarrow> jrem (Fin (of_int k)) (Fin 10) = Fin (of_int (k mod 10))"
proof -
  assume k: "0 \<le> k"
  have "\<lfloor>(of_int k :: real) / of_int 10\<rfloor> = k div 10"
    by (rule floor_divide_of_int_eq)
  then have "\<lfloor>(of_int k :: real) / 10\<rfloor> = k div 10" by simp
  then have t: "trunc (of_int k / 10) = of_int (k div 10)"
    using k by (simp add: trunc_def)
  have "k - 10 * (k div 10) = k mod 10" by (simp add: minus_mult_div_eq_mod)
  then have "(of_int (k - 10 * (k div 10)) :: real) = of_int (k mod 10)" by (rule arg_cong)
  then have "(of_int k :: real) - 10 * of_int (k div 10) = of_int (k mod 10)"
    by (simp only: of_int_diff of_int_mult of_int_numeral)
  with t show ?thesis by simp
qed

text \<open>
  C8 (what the code does). For a non-negative integral sample \<open>k\<close> the discrete branch
  pushes \<open>COLOR_MAP[k % 10]\<close>; the table has the nine indices 0 to 8, so a sample whose
  last decimal digit is 9 yields an undefined entry.
\<close>

theorem discrete_colors_lookup:
  assumes "0 \<le> k"
  shows "discrete_colors [Num (Fin (of_int k))] =
    [if k mod 10 = 9 then None else Some (COLOR_MAP ! nat (k mod 10))]"
proof -
  have "0 \<le> k mod 10" "k mod 10 < 10" by simp_all
  then have "at_index COLOR_MAP (k mod 10) =
    (if k mod 10 = 9 then None else Some (COLOR_MAP ! nat (k mod 10)))"
    by (auto simp: at_index_def COLOR_MAP_def)
  then show ?thesis using jrem_10_nat[OF assms] by (simp add: discrete_colors_def)
qed

theorem discrete_colors_lookup_witness:
  "discrete_colors [Num (Fin 9)] = [None] \<and>
   getLogColor sample_rgb (Some sample_log) ''GR'' =
     Inr [None, Some [Fin 255, Fin 255, Fin 0, Fin 255], Some [Fin 125, Fin 255, Fin 125, Fin 255]]"
  using discrete_colors_lookup[of 9] by (simp add: log_eval)

section \<open>The width of a log curve\<close>

lemma getLogWidth_match:
  assumes "curves d = Some cs" and "i < length cs"
    and "toLowerCase (name (cs ! i)) = toLowerCase log_name"
    and "\<forall>j<i. toLowerCase (name (cs ! j)) \<noteq> toLowerCase log_name"
    and "data d = Some rows"
  shows "getLogWidth (Some d) log_name =
    (if i = 0 then Inr Null else if i < length rows then Inr (Value (rows ! i)) else Inr Undefined)"
  using getLogIDByName_first[OF assms(1-4)] assms(5)
  by (simp add: getLogWidth_def row_at_def at_index_def)

text \<open>
  C5 (what the code does). When \<open>d.curves\<close> and \<open>d.data\<close> exist and no curve is named
  \<open>log_name\<close> up to case, \<open>findIndex\<close> gives \<open>-1\<close>, which is truthy, and \<open>getLogWidth\<close>
  returns \<open>d.data[-1]\<close>, that is \<open>undefined\<close>, not \<open>null\<close>.
\<close>

theorem getLogWidth_unmatched:
  assumes "curves d = Some cs"
    and "\<forall>item\<in>set cs. toLowerCase (name item) \<noteq> toLowerCase log_name"
    and "data d = Some rows"
  shows "getLogWidth (Some d) log_name = Inr Undefined"
  using getLogIDByName_none[OF assms(1,2)] assms(3)
  by (simp add: getLogWidth_def row_at_def at_index_def)

theorem getLogWidth_unmatched_witness:
  "getLogWidth (Some sample_log) ''Perm'' = Inr Undefined"
  using getLogWidth_unmatched[of sample_log _ "''Perm''"]
  by (simp add: sample_log_def toLowerCase_def)

section \<open>Picking a log curve\<close>

lemmas pick_eval = getPickingInfo_def nearest_vertex_def nearest_loop.simps squared_distance_def
  sq_dist_def coord_def sample_info_def sample_props_def

lemma getPickingInfo_no_data:
  "object info = None \<or> (\<exists>obj. object info = Some obj \<and> data obj = None) \<Longrightarrow>
   getPickingInfo props info = Inr (Info info)"
  by (auto simp: getPickingInfo_def)

lemma getPickingInfo_sample:
  "getPickingInfo sample_props sample_info = Inr (InfoWithLog sample_info (Some (Num (Fin 3))) ''GR'')"
  by (simp add: pick_eval log_eval)

text \<open>
  C6 (what the code does). When the picked object has \<open>data\<close> and \<open>curves\<close> and no curve is
  named \<open>logName\<close> up to case, \<open>getPickingInfo\<close> does not return: \<open>log_id\<close> is \<open>-1\<close>, the
  test \<open>!log_id\<close> is false, and reading an element of the undefined \<open>data[-1]\<close> throws
  (as reading \<open>length\<close> of a missing trajectory does before).
\<close>

theorem getPickingInfo_unmatched_throws:
  assumes obj: "object info = Some obj" and rows: "data obj = Some rows"
    and cs: "curves obj = Some cs"
    and none: "\<forall>item\<in>set cs. toLowerCase (name item) \<noteq> toLowerCase (logName props)"
  shows "getPickingInfo props info = Inl TypeError"
proof -
  have id: "getLogIDByName (Some obj) (logName props) = Some (- 1)"
    using cs none by (rule getLogIDByName_none)
  have idx: "at_index rows (- 1) = None" by (simp add: at_index_def)
  show ?thesis
  proof (cases "at_index rows 0")
    case None
    then show ?thesis using obj rows by (simp add: getPickingInfo_def)
  next
    case (Some trajectory)
    show ?thesis
    proof (cases "nearest_vertex trajectory (coordinate info)")
      case (Inl e)
      then show ?thesis using obj rows Some by (cases e) (simp add: getPickingInfo_def)
    next
      case (Inr vertex_index)
      then show ?thesis using obj rows Some id idx by (simp add: getPickingInfo_def)
    qed
  qed
qed

theorem getPickingInfo_unmatched_throws_witness:
  "getPickingInfo (sample_props\<lparr>logName := ''Perm''\<rparr>) sample_info = Inl TypeError"
  using getPickingInfo_unmatched_throws[of sample_info sample_log _ _ "sample_props\<lparr>logName := ''Perm''\<rparr>"]
  by (simp add: sample_info_def sample_props_def sample_log_def toLowerCase_def)

section \<open>The normalization of a continuous curve\<close>

lemma jsub_self: "jsub (Fin x) (Fin x) = Fin 0"
  by (simp add: jsub_def fl_zero)

lemma foldl_jmin_const: "\<forall>v\<in>set xs. v = Fin x \<Longrightarrow> foldl jmin (Fin x) xs = Fin x"
  by (induction xs) (simp_all add: jmin_def)

lemma foldl_jmax_const: "\<forall>v\<in>set xs. v = Fin x \<Longrightarrow> foldl jmax (Fin x) xs = Fin x"
  by (induction xs) (simp_all add: jmax_def)

lemma Math_min_const:
  assumes "xs \<noteq> []" and "\<forall>v\<in>set xs. v = Fin x"
  shows "Math_min xs = Fin x"
proof (cases xs)
  case Nil
  with assms show ?thesis by simp
next
  case (Cons a as)
  with assms have "a = Fin x" "\<forall>v\<in>set as. v = Fin x" by simp_all
  then show ?thesis using Cons by (simp add: Math_min_def jmin_def foldl_jmin_const)
qed

lemma Math_max_const:
  assumes "xs \<noteq> []" and "\<forall>v\<in>set xs. v = Fin x"
  shows "Math_max xs = Fin x"
proof (cases xs)
  case Nil
  with assms show ?thesis by simp
next
  case (Cons a as)
  with assms have "a = Fin x" "\<forall>v\<in>set as. v = Fin x" by simp_all
  then show ?thesis using Cons by (simp add: Math_max_def jmax_def foldl_jmax_const)
qed

text \<open>
  C9 (as amended). The normalization \<open>(value - min) / max_delta\<close> of the continuous branch
  is not guarded: for a row with at least one sample whose samples are all the same finite
  number, \<open>max_delta\<close> is 0 and the division evaluated for each sample is \<open>0 / 0\<close>, which is
  \<open>NaN\<close>; each sample gets the colour the library gives for \<open>NaN\<close>, or none.
\<close>

theorem continuous_equal_samples_divide_by_zero:
  assumes ne: "row \<noteq> []" and eq: "\<forall>value\<in>set row. to_number value = Fin x"
  shows "divisions row = replicate (length row) (Fin 0, Fin 0) \<and>
    continuous_colors color_rgb row =
      concat (replicate (length row)
        (case color_rgb NaN of None \<Rightarrow> [] | Some (r, g, b) \<Rightarrow> [Some [r, g, b]]))"
proof -
  have n: "map to_number row \<noteq> []" using ne by simp
  have e: "\<forall>v\<in>set (map to_number row). v = Fin x" using eq by auto
  have mn: "Math_min (map to_number row) = Fin x" using n e by (rule Math_min_const)
  have mx: "Math_max (map to_number row) = Fin x" using n e by (rule Math_max_const)
  have "map (\<lambda>value. (jsub (to_number value) (Fin x), Fin (0::real))) row =
        replicate (length row) (Fin 0, Fin 0)"
    using eq by (induction row) (simp_all add: jsub_self)
  then have d: "divisions row = replicate (length row) (Fin 0, Fin 0)"
    by (simp add: divisions_def Let_def mn mx jsub_self)
  have "continuous_colors color_rgb row =
      concat (replicate (length row)
        (case color_rgb NaN of None \<Rightarrow> [] | Some (r, g, b) \<Rightarrow> [Some [r, g, b]]))"
    unfolding continuous_colors_def d by (simp add: map_replicate)
  with d show ?thesis by simp
qed

theorem continuous_equal_samples_divide_by_zero_witness:
  "divisions [Num (Fin 5), Num (Fin 5), Num (Fin 5)] = [(Fin 0, Fin 0), (Fin 0, Fin 0), (Fin 0, Fin 0)] \<and>
   continuous_colors sample_rgb [Num (Fin 5), Num (Fin 5), Num (Fin 5)] =
     [Some [NaN, NaN, NaN], Some [NaN, NaN, NaN], Some [NaN, NaN, NaN]]"
  using continuous_equal_samples_divide_by_zero[of "[Num (Fin 5), Num (Fin 5), Num (Fin 5)]" 5 sample_rgb]
  by (simp add: sample_rgb_def numeral_3_eq_3)

text \<open>
  C9 as stated fails: the third row of the sample holds the samples 5, 5 and 5 of a
  continuous curve, the denominator of the first division is 0, and with a colour function
  that returns its argument the colours are \<open>NaN\<close> throughout.
\<close>

theorem continuous_zero_denominator_counterexample:
  "row_at (Some sample_log) 2 = Inr (Some [Num (Fin 5), Num (Fin 5), Num (Fin 5)]) \<and>
   snd (divisions [Num (Fin 5), Num (Fin 5), Num (Fin 5)] ! 0) = Fin 0 \<and>
   getLogColor sample_rgb (Some sample_log) ''PORO'' =
     Inr [Some [NaN, NaN, NaN], Some [NaN, NaN, NaN], Some [NaN, NaN, NaN]]"
  by (simp add: log_eval)

section \<open>Selecting a feature\<close>

text \<open>
  C10. With \<open>selectionEnabled\<close> false, \<open>onClick\<close> returns false and does not call
  \<open>patchLayerProps\<close>: the state is as it was. With \<open>selectionEnabled\<close> true it returns true
  and calls \<open>patchLayerProps\<close> once, with a patch that sets \<open>selectedFeature\<close> to the clicked
  object and holds every other own key of the props with its value, and no further key:
  every prop but \<open>selectedFeature\<close>, defaulted ones included, reads from the patched props
  as it did before.
\<close>

theorem onClick_frame:
  "(\<not> truthy (read_prop props ''selectionEnabled'') \<longrightarrow>
      onClick patchLayerProps props info s = (False, s)) \<and>
   (truthy (read_prop props ''selectionEnabled'') \<longrightarrow>
      (\<exists>patch. onClick patchLayerProps props info s = (True, patchLayerProps props patch s) \<and>
         patch ''selectedFeature'' =
           Some (case object info of None \<Rightarrow> PUndefined | Some obj \<Rightarrow> PObject obj) \<and>
         (\<forall>k. k \<noteq> ''selectedFeature'' \<longrightarrow> patch k = own_props props k) \<and>
         (\<forall>k. k \<noteq> ''selectedFeature'' \<longrightarrow>
            read_prop (props\<lparr>own_props := patch\<rparr>) k = read_prop props k)))"
proof (intro conjI impI)
  assume "\<not> truthy (read_prop props ''selectionEnabled'')"
  then show "onClick patchLayerProps props info s = (False, s)" by (simp add: onClick_def)
next
  let ?patch = "(own_props props)
      (''selectedFeature'' \<mapsto> (case object info of None \<Rightarrow> PUndefined | Some obj \<Rightarrow> PObject obj))"
  assume "truthy (read_prop props ''selectionEnabled'')"
  then have "onClick patchLayerProps props info s = (True, patchLayerProps props ?patch s)"
    by (simp add: onClick_def)
  moreover have "?patch ''selectedFeature'' =
      Some (case object info of None \<Rightarrow> PUndefined | Some obj \<Rightarrow> PObject obj)"
    by simp
  moreover have "\<forall>k. k \<noteq> ''selectedFeature'' \<longrightarrow> ?patch k = own_props props k"
    by simp
  moreover have "\<forall>k. k \<noteq> ''selectedFeature'' \<longrightarrow>
      read_prop (props\<lparr>own_props := ?patch\<rparr>) k = read_prop props k"
    by (simp add: read_prop_def split: option.splits)
  ultimately show "\<exists>patch. onClick patchLayerProps props info s = (True, patchLayerProps props patch s) \<and>
         patch ''selectedFeature'' =
           Some (case object info of None \<Rightarrow> PUndefined | Some obj \<Rightarrow> PObject obj) \<and>
         (\<forall>k. k \<noteq> ''selectedFeature'' \<longrightarrow> patch k = own_props props k) \<and>
         (\<forall>k. k \<noteq> ''selectedFeature'' \<longrightarrow>
            read_prop (props\<lparr>own_props := patch\<rparr>) k = read_prop props k)"
    by (intro exI[of _ ?patch] conjI)
qed

text \<open>
  The sample layer takes \<open>selectionEnabled\<close> from the defaults: the click is accepted, and
  the patch holds the clicked object and the two own props, not \<open>selectionEnabled\<close>. A layer
  created with \<open>selectionEnabled: false\<close> refuses the click.
\<close>

theorem onClick_frame_witness:
  "fst (onClick (\<lambda>layer patch s. patch) sample_layer sample_info Map.empty) = True \<and>
   snd (onClick (\<lambda>layer patch s. patch) sample_layer sample_info Map.empty) ''selectedFeature''
     = Some (PObject sample_log) \<and>
   snd (onClick (\<lambda>layer patch s. patch) sample_layer sample_info Map.empty) ''logName''
     = Some (PString ''GR'') \<and>
   snd (onClick (\<lambda>layer patch s. patch) sample_layer sample_info Map.empty) ''pointRadiusScale''
     = Some (PNumber (Fin 8)) \<and>
   snd (onClick (\<lambda>layer patch s. patch) sample_layer sample_info Map.empty) ''selectionEnabled''
     = None \<and>
   onClick (\<lambda>layer patch s. patch)
     (sample_layer\<lparr>own_props := [''selectionEnabled'' \<mapsto> PBool False]\<rparr>) sample_info Map.empty
     = (False, Map.empty)"
  using onClick_frame[of sample_layer "\<lambda>layer patch s. patch" sample_info Map.empty]
    onClick_frame[of "sample_layer\<lparr>own_props := [''selectionEnabled'' \<mapsto> PBool False]\<rparr>"
      "\<lambda>layer patch s. patch" sample_info Map.empty]
  by (simp add: onClick_def read_prop_def sample_layer_def defaultProps_def sample_info_def)

section \<open>What picking reads of the layer\<close>

lemma getPickingInfo_reads_logName:
  assumes "logName props1 = logName props2"
  shows "getPickingInfo props1 info = getPickingInfo props2 info"
  unfolding getPickingInfo_def using assms by (simp only:)

section \<open>Finite coordinates\<close>

text \<open>
  A trajectory point and a pointer coordinate that both start with two finite numbers are
  never at a \<open>NaN\<close> squared distance: the differences are finite or infinite, their squares
  are not negative, and the sum of two such squares is defined.
\<close>

lemma jsub_Fin_not_NaN: "jsub (Fin x) (Fin u) \<noteq> NaN"
  by (simp add: jsub_def fl_not_NaN)

lemma fl_square: "fl (t * t) \<noteq> NaN \<and> fl (t * t) \<noteq> NegInf"
  using fl_nonneg[of "t * t"] by (simp add: fl_not_NaN)

lemma jmul_self: "d \<noteq> NaN \<Longrightarrow> jmul d d \<noteq> NaN \<and> jmul d d \<noteq> NegInf"
  by (cases d) (simp_all add: fl_square)

lemma jadd_not_NaN: "a \<noteq> NaN \<Longrightarrow> a \<noteq> NegInf \<Longrightarrow> b \<noteq> NaN \<Longrightarrow> b \<noteq> NegInf \<Longrightarrow> jadd a b \<noteq> NaN"
  by (cases a; cases b) (simp_all add: fl_not_NaN)

lemma sq_dist_finite:
  "sq_dist (Pt (Fin x # Fin y # p)) (Fin u # Fin v # q) \<noteq> NaN"
proof -
  have "coord (Fin x # Fin y # p) 0 = Fin x" "coord (Fin x # Fin y # p) 1 = Fin y"
       "coord (Fin u # Fin v # q) 0 = Fin u" "coord (Fin u # Fin v # q) 1 = Fin v"
    by (simp_all add: coord_def at_index_def)
  then show ?thesis
    unfolding sq_dist_def Let_def components.simps
    using jmul_self[OF jsub_Fin_not_NaN[of x u]] jmul_self[OF jsub_Fin_not_NaN[of y v]]
    by (simp add: jadd_not_NaN)
qed

section \<open>The value under the pointer\<close>

text \<open>
  When the curve named by \<open>logName\<close> is first found at an index \<open>i \<ge> 1\<close> and its row exists,
  \<open>getPickingInfo\<close> adds the name of that curve and the entry of its row at the index the
  scan returned (undefined when the row is shorter).
\<close>

lemma getPickingInfo_value:
  assumes obj: "object info = Some obj" and rows: "data obj = Some (trajectory # rest)"
    and cs: "curves obj = Some cs" and i: "i < length cs"
    and match: "toLowerCase (name (cs ! i)) = toLowerCase (logName props)"
    and first: "\<forall>j<i. toLowerCase (name (cs ! j)) \<noteq> toLowerCase (logName props)"
    and pos: "0 < i" and row: "i < length (trajectory # rest)"
    and v: "nearest_vertex trajectory (coordinate info) = Inr vertex_index"
  shows "getPickingInfo props info =
    Inr (InfoWithLog info (at_index ((trajectory # rest) ! i) (int vertex_index)) (name (cs ! i)))"
proof -
  have id: "getLogIDByName (Some obj) (logName props) = Some (int i)"
    using cs i match first by (rule getLogIDByName_first)
  have c: "curve_at (Some obj) (int i) = Inr (Some (cs ! i))"
    using cs i by (simp add: curve_at_def at_index_def)
  have r: "at_index (trajectory # rest) (int i) = Some ((trajectory # rest) ! i)"
    using row by (simp add: at_index_def)
  have t: "at_index (trajectory # rest) 0 = Some trajectory" by (simp add: at_index_def)
  show ?thesis
    unfolding getPickingInfo_def using obj rows t v id pos c r by simp
qed

end
